theory Spec2Isabelle
  imports Main
begin

section \<open>The security service of the health-records application\<close>

text \<open>
  A shallow embedding of the class \<open>SecurityService\<close>: the audit log, the access
  permissions, the placeholder encryption and the security score. Every public method
  becomes a function from the service's state to the outcome of the call (the value
  returned, or the error thrown) paired with the state the call leaves behind.

  What the methods read from their surroundings is passed in explicitly as an
  \<open>environment\<close>: the clock (\<open>Date.now()\<close>), the random suffixes of the generated
  identifiers, and the browser's user agent. One call reads one clock value.
  Identifiers (addresses, resource ids, actions) are strings of 8-bit code units;
  times are integers (milliseconds), and a time to live is a whole number of hours.
  The copies that \<open>saveAuditLogs\<close> and \<open>savePermissions\<close> write to the browser's
  storage and the console warning of \<open>logSecurityEvent\<close> are not read back by any
  operation and are left out; \<open>loadStoredData\<close> may install any two lists, so the
  theorems are stated for every state.
\<close>

subsection \<open>Strings\<close>

text \<open>\<open>String.prototype.toLowerCase\<close> on the code units 0 to 255: the letters A to Z and
  the upper-case letters of the Latin-1 supplement move up by 32.\<close>

definition toLowerCase_char :: "char \<Rightarrow> char" where
  "toLowerCase_char c =
     (let n = (of_char c :: nat)
      in if (65 \<le> n \<and> n \<le> 90) \<or> (192 \<le> n \<and> n \<le> 222 \<and> n \<noteq> 215)
         then char_of (n + 32) else c)"

definition toLowerCase :: "string \<Rightarrow> string" where
  "toLowerCase s = map toLowerCase_char s"

text \<open>Decimal notation of a number, as a template literal prints it.\<close>

fun string_of_nat :: "nat \<Rightarrow> string" where
  "string_of_nat n =
     (if n < 10 then [char_of (48 + n)]
      else string_of_nat (n div 10) @ [char_of (48 + n mod 10)])"

definition string_of_int :: "int \<Rightarrow> string" where
  "string_of_int i =
     (if i < 0 then CHR ''-'' # string_of_nat (nat (- i)) else string_of_nat (nat i))"

text \<open>\<open>Array.prototype.join\<close> with a separator.\<close>

fun join :: "string \<Rightarrow> string list \<Rightarrow> string" where
  "join sep [] = []"
| "join sep [x] = x"
| "join sep (x # y # ys) = x @ sep @ join sep (y # ys)"

subsection \<open>Data model\<close>

datatype riskLevel = Low | Medium | High

datatype resourceType = Record | Profile | Full_access

datatype permissionKind = Read | Write | Share | Delete

fun permissionKind_name :: "permissionKind \<Rightarrow> string" where
  "permissionKind_name Read = ''read''"
| "permissionKind_name Write = ''write''"
| "permissionKind_name Share = ''share''"
| "permissionKind_name Delete = ''delete''"

record SecurityAudit =
  audit_id :: string
  timestamp :: int
  action :: string
  userAddress :: string
  audit_resourceId :: "string option"
  ipAddress :: string
  userAgent :: string
  success :: bool
  riskLevel :: riskLevel
  details :: "string option"

record AccessPermission =
  perm_id :: string
  granterAddress :: string
  granteeAddress :: string
  resourceId :: string
  resourceType :: resourceType
  permissions :: "permissionKind list"
  expiresAt :: int
  createdAt :: int
  isActive :: bool

text \<open>The two private collections of the service (\<open>this.auditLogs\<close>,
  \<open>this.permissions\<close>), in insertion order.\<close>

record SecurityService =
  auditLogs :: "SecurityAudit list"
  permissionList :: "AccessPermission list"

definition emptyService :: SecurityService where
  "emptyService = \<lparr>auditLogs = [], permissionList = []\<rparr>"

text \<open>What a call reads from outside the service.\<close>

record environment =
  now :: int
  permSuffix :: string
  auditSuffix :: string
  browserAgent :: string

text \<open>The errors of the interface. The source throws the last three; no method of the
  source throws \<open>InvalidArgument\<close>.\<close>

datatype error = InvalidArgument | NotFoundOrUnauthorized | EncryptionFailed | DecryptionFailed

type_synonym 'a outcome = "(error + 'a) \<times> SecurityService"

subsection \<open>Audit log\<close>

definition getClientIP :: string where
  "getClientIP = ''192.168.1.100''"

text \<open>The audit record that \<open>logSecurityEvent\<close> builds from the event it is given.\<close>

definition new_audit ::
  "environment \<Rightarrow> string \<Rightarrow> string \<Rightarrow> string option \<Rightarrow> bool \<Rightarrow> riskLevel \<Rightarrow> string option
     \<Rightarrow> SecurityAudit" where
  "new_audit env act usr res ok risk det =
     \<lparr>audit_id = ''audit_'' @ string_of_int (now env) @ ''_'' @ auditSuffix env,
      timestamp = now env,
      action = act,
      userAddress = usr,
      audit_resourceId = res,
      ipAddress = getClientIP,
      userAgent = browserAgent env,
      success = ok,
      riskLevel = risk,
      details = det\<rparr>"

definition logSecurityEvent ::
  "environment \<Rightarrow> SecurityService \<Rightarrow> string \<Rightarrow> string \<Rightarrow> string option \<Rightarrow> bool \<Rightarrow> riskLevel
     \<Rightarrow> string option \<Rightarrow> SecurityService" where
  "logSecurityEvent env s act usr res ok risk det =
     s\<lparr>auditLogs := auditLogs s @ [new_audit env act usr res ok risk det]\<rparr>"

text \<open>\<open>[...this.auditLogs].sort((a, b) => b.timestamp - a.timestamp)\<close>: a stable sort of a
  copy of the log, latest first.\<close>

definition sort_desc :: "SecurityAudit list \<Rightarrow> SecurityAudit list" where
  "sort_desc logs = sort_key (\<lambda>a. - timestamp a) logs"

text \<open>\<open>xs.slice(0, limit)\<close>: a negative limit counts from the end.\<close>

definition slice0 :: "'a list \<Rightarrow> int \<Rightarrow> 'a list" where
  "slice0 xs limit =
     (if limit < 0 then take (nat (int (length xs) + limit)) xs else take (nat limit) xs)"

text \<open>The filter is applied when \<open>userAddress\<close> is truthy: given and not the empty
  string. The limit defaults to 50 when it is not given.\<close>

definition getSecurityAuditLogs ::
  "SecurityService \<Rightarrow> string option \<Rightarrow> int option \<Rightarrow> SecurityAudit list outcome" where
  "getSecurityAuditLogs s userAddr limit =
     (let lim = (case limit of None \<Rightarrow> 50 | Some l \<Rightarrow> l);
          logs = sort_desc (auditLogs s);
          logs = (case userAddr of
                    None \<Rightarrow> logs
                  | Some u \<Rightarrow>
                      if u = [] then logs
                      else filter (\<lambda>log. toLowerCase (userAddress log) = toLowerCase u) logs)
      in (Inr (slice0 logs lim), s))"

subsection \<open>Access control\<close>

definition new_perm_id :: "environment \<Rightarrow> string" where
  "new_perm_id env = ''perm_'' @ string_of_int (now env) @ ''_'' @ permSuffix env"

text \<open>The permission object that \<open>grantAccess\<close> builds; the time to live defaults to 24
  hours.\<close>

definition new_permission ::
  "environment \<Rightarrow> string \<Rightarrow> string \<Rightarrow> string \<Rightarrow> resourceType \<Rightarrow> permissionKind list
     \<Rightarrow> int option \<Rightarrow> AccessPermission" where
  "new_permission env granter grantee res rtype perms expiresIn =
     (let expiresInHours = (case expiresIn of None \<Rightarrow> 24 | Some h \<Rightarrow> h)
      in \<lparr>perm_id = new_perm_id env,
          granterAddress = granter,
          granteeAddress = grantee,
          resourceId = res,
          resourceType = rtype,
          permissions = perms,
          expiresAt = now env + expiresInHours * 60 * 60 * 1000,
          createdAt = now env,
          isActive = True\<rparr>)"

definition grantAccess ::
  "environment \<Rightarrow> SecurityService \<Rightarrow> string \<Rightarrow> string \<Rightarrow> string \<Rightarrow> resourceType
     \<Rightarrow> permissionKind list \<Rightarrow> int option \<Rightarrow> string outcome" where
  "grantAccess env s granter grantee res rtype perms expiresIn =
     (let permission = new_permission env granter grantee res rtype perms expiresIn;
          s1 = s\<lparr>permissionList := permissionList s @ [permission]\<rparr>;
          s2 = logSecurityEvent env s1 ''Access Granted'' granter (Some res) True Medium
                 (Some (''Granted '' @ join '', '' (map permissionKind_name perms)
                          @ '' to '' @ grantee))
      in (Inr (perm_id permission), s2))"

text \<open>\<open>permission.isActive = false\<close> on the element that \<open>find\<close> returned: the first one
  of the list that satisfies the test.\<close>

fun deactivate_first ::
  "(AccessPermission \<Rightarrow> bool) \<Rightarrow> AccessPermission list \<Rightarrow> AccessPermission list" where
  "deactivate_first P [] = []"
| "deactivate_first P (p # ps) =
     (if P p then p\<lparr>isActive := False\<rparr> # ps else p # deactivate_first P ps)"

definition revokeAccess :: "environment \<Rightarrow> SecurityService \<Rightarrow> string \<Rightarrow> string \<Rightarrow> unit outcome" where
  "revokeAccess env s granter permissionId =
     (let test = (\<lambda>p. perm_id p = permissionId \<and> granterAddress p = granter)
      in case List.find test (permissionList s) of
           None \<Rightarrow> (Inl NotFoundOrUnauthorized, s)
         | Some permission \<Rightarrow>
             (let s1 = s\<lparr>permissionList := deactivate_first test (permissionList s)\<rparr>;
                  s2 = logSecurityEvent env s1 ''Access Revoked'' granter
                         (Some (resourceId permission)) True Medium
                         (Some (''Revoked access from '' @ granteeAddress permission))
              in (Inr (), s2)))"

text \<open>The test of \<open>checkAccess\<close>'s filter.\<close>

definition validPermission ::
  "int \<Rightarrow> string \<Rightarrow> string \<Rightarrow> permissionKind \<Rightarrow> AccessPermission \<Rightarrow> bool" where
  "validPermission t usr res required p \<longleftrightarrow>
     toLowerCase (granteeAddress p) = toLowerCase usr \<and>
     resourceId p = res \<and>
     isActive p \<and>
     expiresAt p > t \<and>
     required \<in> set (permissions p)"

definition checkAccess ::
  "environment \<Rightarrow> SecurityService \<Rightarrow> string \<Rightarrow> string \<Rightarrow> permissionKind \<Rightarrow> bool outcome" where
  "checkAccess env s usr res required =
     (let validPermissions = filter (validPermission (now env) usr res required) (permissionList s);
          hasAccess = (length validPermissions > 0);
          s1 = logSecurityEvent env s ''Access Check'' usr (Some res) hasAccess
                 (if hasAccess then Low else Medium)
                 (Some (''Checked '' @ permissionKind_name required @ '' permission''))
      in (Inr hasAccess, s1))"

definition getUserPermissions ::
  "environment \<Rightarrow> SecurityService \<Rightarrow> string \<Rightarrow> AccessPermission list outcome" where
  "getUserPermissions env s usr =
     (Inr (filter (\<lambda>p. (toLowerCase (granterAddress p) = toLowerCase usr \<or>
                         toLowerCase (granteeAddress p) = toLowerCase usr) \<and>
                        isActive p \<and>
                        expiresAt p > now env)
             (permissionList s)), s)"

subsection \<open>Security score\<close>

definition calculateSecurityScore :: "environment \<Rightarrow> SecurityService \<Rightarrow> string \<Rightarrow> int outcome" where
  "calculateSecurityScore env s usr =
     (case getSecurityAuditLogs s (Some usr) (Some 100) of
        (Inl e, s1) \<Rightarrow> (Inl e, s1)
      | (Inr recentLogs, s1) \<Rightarrow>
          (case getUserPermissions env s1 usr of
             (Inl e, s2) \<Rightarrow> (Inl e, s2)
           | (Inr perms, s2) \<Rightarrow>
               (let score = 100;
                    failedEvents = filter (\<lambda>log. \<not> success log) recentLogs;
                    score = score - int (length failedEvents) * 2;
                    highRiskEvents = filter (\<lambda>log. riskLevel log = High) recentLogs;
                    score = score - int (length highRiskEvents) * 5;
                    score = (if length perms > 10
                             then score - (int (length perms) - 10) * 3 else score);
                    recentActivity =
                      filter (\<lambda>log. now env - timestamp log < 7 * 24 * 60 * 60 * 1000) recentLogs;
                    score = (if length recentActivity > 0 then score + 5 else score)
                in (Inr (max 0 (min 100 score)), s2))))"

subsection \<open>Placeholder encryption\<close>

text \<open>
  The payload of \<open>encryptData\<close> is a string of 16-bit code units, since \<open>btoa\<close> tells
  the units above 255 from the others. \<open>btoa\<close>, \<open>atob\<close>, \<open>JSON.stringify\<close>, \<open>JSON.parse\<close>,
  \<open>ethers.toUtf8Bytes\<close> and \<open>ethers.keccak256\<close> belong to the platform, not to the
  repository. The model keeps of them what the methods depend on:
  \<^item> a ciphertext is represented by what \<open>JSON.parse(atob(c))\<close> makes of it: an exception
    (\<open>Malformed\<close>, with the exception's message), the value \<open>null\<close>, of which no property
    can be read (\<open>Nullish\<close>, with the message of the exception that reading one raises),
    or a value whose properties \<open>data\<close>, \<open>key\<close> and \<open>timestamp\<close> are read. So the model
    takes from the platform that \<open>atob\<close> undoes \<open>btoa\<close> and that \<open>JSON.parse\<close> undoes
    \<open>JSON.stringify\<close>: the ciphertext that \<open>encryptData\<close> returns is the object it built;
  \<^item> \<open>btoa\<close> raises on a text with a code unit above 255, and \<open>JSON.stringify\<close> writes
    every code unit of a string as it is, but for the escapes, all ASCII, of the quote,
    the backslash, the control characters and the unpaired surrogates;
  \<^item> the hash is a parameter \<open>keccak\<close>, standing for
    \<open>ethers.keccak256(ethers.toUtf8Bytes(_))\<close>. It returns the hash, or raises with a
    message: \<open>ethers.toUtf8Bytes\<close> raises on a string in which a high surrogate is not
    followed by a low surrogate. The identifiers of this model have no such code unit;
    the failure is a behaviour of the parameter.
\<close>

type_synonym jsstring = "nat list"

datatype jsvalue = JString jsstring | JNumber int | JOther

datatype ciphertext = Malformed string | Nullish string | Encoded jsvalue jsvalue jsvalue

definition high_surrogate :: "nat \<Rightarrow> bool" where
  "high_surrogate u \<longleftrightarrow> 55296 \<le> u \<and> u \<le> 56319"

definition low_surrogate :: "nat \<Rightarrow> bool" where
  "low_surrogate u \<longleftrightarrow> 56320 \<le> u \<and> u \<le> 57343"

text \<open>Whether \<open>JSON.stringify\<close> of the string contains a code unit above 255.\<close>

fun stringify_has_wide :: "jsstring \<Rightarrow> bool" where
  "stringify_has_wide [] = False"
| "stringify_has_wide (u # us) =
     (if high_surrogate u then
        (case us of
           [] \<Rightarrow> False
         | v # vs \<Rightarrow> if low_surrogate v then True else stringify_has_wide us)
      else if low_surrogate u then stringify_has_wide us
      else 255 < u \<or> stringify_has_wide us)"

text \<open>The key of a principal, or the message of the exception that the derivation
  raises.\<close>

definition deriveEncryptionKey :: "(string \<Rightarrow> string + string) \<Rightarrow> string \<Rightarrow> string + string" where
  "deriveEncryptionKey keccak userAddr = keccak (userAddr @ ''healthchain_key'')"

text \<open>\<open>key.slice(0, 16)\<close>, as the value stored in the payload.\<close>

definition key_prefix :: "string \<Rightarrow> jsvalue" where
  "key_prefix key = JString (map of_char (take 16 key))"

text \<open>The \<open>try\<close> block derives the key and then encodes the payload; an exception of
  either step is logged with its message and thrown again.\<close>

definition encryptData ::
  "(string \<Rightarrow> string + string) \<Rightarrow> string \<Rightarrow> environment \<Rightarrow> SecurityService \<Rightarrow> jsstring
     \<Rightarrow> string \<Rightarrow> ciphertext outcome" where
  "encryptData keccak btoaMessage env s data userAddr =
     (case deriveEncryptionKey keccak userAddr of
        Inl message \<Rightarrow>
          (Inl EncryptionFailed,
           logSecurityEvent env s ''Encryption Failed'' userAddr None False High (Some message))
      | Inr key \<Rightarrow>
          if stringify_has_wide data
          then (Inl EncryptionFailed,
                logSecurityEvent env s ''Encryption Failed'' userAddr None False High
                  (Some btoaMessage))
          else (Inr (Encoded (JString data) (key_prefix key) (JNumber (now env))),
                logSecurityEvent env s ''Data Encrypted'' userAddr None True Low None))"

text \<open>The \<open>try\<close> block decodes the ciphertext, derives the key, and compares the key with
  the property \<open>key\<close> of the decoded value; an exception of any step is logged with its
  message, and \<open>Failed to decrypt data\<close> is thrown.\<close>

definition decryptData ::
  "(string \<Rightarrow> string + string) \<Rightarrow> environment \<Rightarrow> SecurityService \<Rightarrow> ciphertext \<Rightarrow> string
     \<Rightarrow> jsvalue outcome" where
  "decryptData keccak env s encryptedData userAddr =
     (let failed = (\<lambda>message.
            (Inl DecryptionFailed,
             logSecurityEvent env s ''Decryption Failed'' userAddr None False High (Some message)))
      in case encryptedData of
           Malformed message \<Rightarrow> failed message
         | Nullish message \<Rightarrow>
             (case deriveEncryptionKey keccak userAddr of
                Inl derivation_message \<Rightarrow> failed derivation_message
              | Inr key \<Rightarrow> failed message)
         | Encoded decoded_data decoded_key decoded_timestamp \<Rightarrow>
             (case deriveEncryptionKey keccak userAddr of
                Inl derivation_message \<Rightarrow> failed derivation_message
              | Inr key \<Rightarrow>
                  if decoded_key \<noteq> key_prefix key
                  then failed ''Invalid decryption key''
                  else (Inr decoded_data,
                        logSecurityEvent env s ''Data Decrypted'' userAddr None True Low None)))"

subsection \<open>The audit query and the score, read from the source in parts\<close>

text \<open>The events that \<open>getSecurityAuditLogs\<close> selects, sorted, before it cuts the list, and
  the limit it applies.\<close>

definition selected_logs :: "SecurityService \<Rightarrow> string option \<Rightarrow> SecurityAudit list" where
  "selected_logs s u =
     (case u of
        None \<Rightarrow> sort_desc (auditLogs s)
      | Some p \<Rightarrow>
          if p = [] then sort_desc (auditLogs s)
          else filter (\<lambda>log. toLowerCase (userAddress log) = toLowerCase p)
                 (sort_desc (auditLogs s)))"

definition limit_of :: "int option \<Rightarrow> int" where
  "limit_of l = (case l of None \<Rightarrow> 50 | Some n \<Rightarrow> n)"

text \<open>The score that \<open>calculateSecurityScore\<close> computes, as a function of the four
  quantities it reads: the number of failed events and of events of high risk among the
  fetched events, the number of permissions that \<open>getUserPermissions\<close> returns, and
  whether a fetched event is less than seven days old.\<close>

definition score_of_counts :: "nat \<Rightarrow> nat \<Rightarrow> nat \<Rightarrow> bool \<Rightarrow> int" where
  "score_of_counts failed high perms recent =
     max 0 (min 100
       (100 - int failed * 2 - int high * 5
            - (if perms > 10 then (int perms - 10) * 3 else 0)
            + (if recent then 5 else 0)))"

subsection \<open>The score as the specification words it\<close>

text \<open>
  The specification's scorer, step by step: start at 100; fetch the up to 100 most
  recent audit events of the principal (principals are compared without regard to letter
  case); subtract 2 for each event that failed and 5 for each event of high risk, both
  for an event that is both; when the principal has more than 10 effective permissions
  (active, not expired, the principal being granter or grantee), subtract 3 for each one
  above 10; add 5 when a fetched event is less than seven days old; clamp to 0..100.
\<close>

definition same_principal :: "string \<Rightarrow> string \<Rightarrow> bool" where
  "same_principal a b \<longleftrightarrow> toLowerCase a = toLowerCase b"

definition principal_events :: "SecurityService \<Rightarrow> string \<Rightarrow> SecurityAudit list" where
  "principal_events s p =
     take 100 (filter (\<lambda>e. same_principal (userAddress e) p) (sort_desc (auditLogs s)))"

definition effective :: "int \<Rightarrow> AccessPermission \<Rightarrow> bool" where
  "effective t q \<longleftrightarrow> isActive q \<and> expiresAt q > t"

definition effective_permissions :: "int \<Rightarrow> SecurityService \<Rightarrow> string \<Rightarrow> AccessPermission list" where
  "effective_permissions t s p =
     filter (\<lambda>q. (same_principal (granterAddress q) p \<or> same_principal (granteeAddress q) p)
                  \<and> effective t q) (permissionList s)"

definition event_penalty :: "SecurityAudit \<Rightarrow> int" where
  "event_penalty e = (if success e then 0 else 2) + (if riskLevel e = High then 5 else 0)"

definition within_last_week :: "int \<Rightarrow> SecurityAudit \<Rightarrow> bool" where
  "within_last_week t e \<longleftrightarrow> t - timestamp e < 7 * 24 * 60 * 60 * 1000"

definition clamp :: "int \<Rightarrow> int \<Rightarrow> int \<Rightarrow> int" where
  "clamp lo hi x = max lo (min hi x)"

definition score_spec :: "int \<Rightarrow> SecurityService \<Rightarrow> string \<Rightarrow> int" where
  "score_spec t s p =
     (let evs = principal_events s p;
          n = int (length (effective_permissions t s p))
      in clamp 0 100
           (100 - (\<Sum>e\<leftarrow>evs. event_penalty e)
                - (if n > 10 then 3 * (n - 10) else 0)
                + (if \<exists>e\<in>set evs. within_last_week t e then 5 else 0)))"

subsection \<open>Concrete environments and states\<close>

text \<open>An environment whose clock reads \<open>t\<close> and whose random suffixes are \<open>sfx\<close>, outside
  a browser.\<close>

definition env_at :: "int \<Rightarrow> string \<Rightarrow> environment" where
  "env_at t sfx = \<lparr>now = t, permSuffix = sfx, auditSuffix = sfx, browserAgent = ''Unknown''\<rparr>"

text \<open>Stand-ins for the hash in the examples, one that returns and one that raises; the
  theorems hold for every function.\<close>

definition plain_hash :: "string \<Rightarrow> string + string" where
  "plain_hash x = Inr (''0x'' @ x)"


text \<open>The state after one grant: A lets B read \<open>rec1\<close> for an hour.\<close>

definition state_after_grant :: SecurityService where
  "state_after_grant =
     snd (grantAccess (env_at 1000 ''abc'') emptyService ''A'' ''B'' ''rec1'' Record [Read] (Some 1))"

text \<open>Then A revokes that permission.\<close>

definition state_after_revoke :: SecurityService where
  "state_after_revoke =
     snd (revokeAccess (env_at 2000 ''def'') state_after_grant ''A'' (new_perm_id (env_at 1000 ''abc'')))"

text \<open>Two grants in the same millisecond that draw the same random suffix get the same
  identifier: a second grant by C, and a second grant by A.\<close>

definition state_shared_id :: SecurityService where
  "state_shared_id =
     snd (grantAccess (env_at 1000 ''abc'') state_after_grant ''C'' ''D'' ''rec2'' Record [Read] (Some 1))"

definition state_two_grants_one_id :: SecurityService where
  "state_two_grants_one_id =
     snd (grantAccess (env_at 1000 ''abc'') state_after_grant ''A'' ''B'' ''rec2'' Record [Read] (Some 1))"

text \<open>A grant of 48 hours at time 0.\<close>

definition state_long_grant :: SecurityService where
  "state_long_grant =
     snd (grantAccess (env_at 0 ''xyz'') emptyService ''A'' ''B'' ''rec1'' Record [Read] (Some 48))"

text \<open>Principal X is denied access three times, and then a decryption fails: three
  failed events and one failed event of high risk.\<close>

definition state_four_failures :: SecurityService where
  "state_four_failures =
     snd (decryptData plain_hash (env_at 3000 ''d'')
       (snd (checkAccess (env_at 2000 ''c'')
         (snd (checkAccess (env_at 1000 ''b'')
           (snd (checkAccess (env_at 0 ''a'') emptyService ''X'' ''rec1'' Read))
           ''X'' ''rec1'' Write))
         ''X'' ''rec2'' Read))
       (Malformed ''Unexpected token'') ''X'')"

text \<open>Principal X is denied access once.\<close>

definition state_other_failure :: SecurityService where
  "state_other_failure = snd (checkAccess (env_at 0 ''a'') emptyService ''X'' ''rec1'' Read)"

text \<open>The log of principal X after a failed decryption at time 0 and 99 encryptions at
  time 1000; then X is denied access at time 2000.\<close>

definition state_hundred :: SecurityService where
  "state_hundred =
     ((\<lambda>s. snd (encryptData plain_hash ''Invalid character'' (env_at 1000 ''ok'') s [104, 105] ''X''))
        ^^ 99)
       (snd (decryptData plain_hash (env_at 0 ''bad'') emptyService (Malformed ''Unexpected token'')
               ''X''))"

definition state_hundred_one :: SecurityService where
  "state_hundred_one = snd (checkAccess (env_at 2000 ''chk'') state_hundred ''X'' ''rec1'' Read)"

section \<open>Basic facts about the operations\<close>

lemma snd_getSecurityAuditLogs: "snd (getSecurityAuditLogs s u l) = s"
  by (simp add: getSecurityAuditLogs_def Let_def)

lemma snd_getUserPermissions: "snd (getUserPermissions env s usr) = s"
  by (simp add: getUserPermissions_def)

lemma getSecurityAuditLogs_Inr: "\<exists>evs. getSecurityAuditLogs s u l = (Inr evs, s)"
  by (simp add: getSecurityAuditLogs_def Let_def)

lemma getUserPermissions_Inr: "\<exists>ps. getUserPermissions env s usr = (Inr ps, s)"
  by (simp add: getUserPermissions_def)

lemma snd_calculateSecurityScore: "snd (calculateSecurityScore env s usr) = s"
proof -
  obtain evs where e: "getSecurityAuditLogs s (Some usr) (Some 100) = (Inr evs, s)"
    using getSecurityAuditLogs_Inr by blast
  obtain ps where p: "getUserPermissions env s usr = (Inr ps, s)"
    using getUserPermissions_Inr by blast
  show ?thesis
    by (simp add: calculateSecurityScore_def e p Let_def)
qed

lemma length_auditLogs_logSecurityEvent:
  "length (auditLogs (logSecurityEvent env s a u r ok risk d)) = Suc (length (auditLogs s))"
  by (simp add: logSecurityEvent_def)

lemma permissionList_logSecurityEvent:
  "permissionList (logSecurityEvent env s a u r ok risk d) = permissionList s"
  by (simp add: logSecurityEvent_def)

lemmas run_defs = revokeAccess_def grantAccess_def checkAccess_def env_at_def emptyService_def
  logSecurityEvent_def new_audit_def Let_def validPermission_def new_permission_def

lemma new_perm_id_distinct:
  "new_perm_id (env_at 1000 ''abc'') \<noteq> new_perm_id (env_at 2000 ''def'')"
  by code_simp

subsection \<open>Granting\<close>

lemma fst_grantAccess: "fst (grantAccess env s g b r rt ps ttl) = Inr (new_perm_id env)"
  by (simp add: grantAccess_def Let_def new_permission_def)

lemma permissionList_grantAccess:
  "permissionList (snd (grantAccess env s g b r rt ps ttl))
     = permissionList s @ [new_permission env g b r rt ps ttl]"
  by (simp add: grantAccess_def Let_def permissionList_logSecurityEvent)

lemma auditLogs_grantAccess:
  "length (auditLogs (snd (grantAccess env s g b r rt ps ttl))) = Suc (length (auditLogs s))"
  by (simp add: grantAccess_def Let_def logSecurityEvent_def)

lemma grantAccess_eq:
  "grantAccess env s g b r rt ps ttl
     = (Inr (new_perm_id env), snd (grantAccess env s g b r rt ps ttl))"
  using fst_grantAccess[of env s g b r rt ps ttl] by (metis prod.collapse)

lemma new_permission_simps:
  "perm_id (new_permission env g b r rt ps ttl) = new_perm_id env"
  "granterAddress (new_permission env g b r rt ps ttl) = g"
  "granteeAddress (new_permission env g b r rt ps ttl) = b"
  "resourceId (new_permission env g b r rt ps ttl) = r"
  "permissions (new_permission env g b r rt ps ttl) = ps"
  "expiresAt (new_permission env g b r rt ps (Some h)) = now env + h * 3600000"
  "createdAt (new_permission env g b r rt ps ttl) = now env"
  "isActive (new_permission env g b r rt ps ttl)"
  by (simp_all add: new_permission_def Let_def)

subsection \<open>Checking\<close>

lemma fst_checkAccess:
  "fst (checkAccess env s u r p)
     = Inr (\<exists>q\<in>set (permissionList s). validPermission (now env) u r p q)"
  by (auto simp: checkAccess_def Let_def filter_empty_conv)

lemma permissionList_checkAccess:
  "permissionList (snd (checkAccess env s u r p)) = permissionList s"
  by (simp add: checkAccess_def Let_def permissionList_logSecurityEvent)

lemma checkAccess_eq:
  "checkAccess env s u r p
     = (Inr (\<exists>q\<in>set (permissionList s). validPermission (now env) u r p q),
        snd (checkAccess env s u r p))"
  using fst_checkAccess[of env s u r p] by (metis prod.collapse)

subsection \<open>Revoking\<close>

lemma find_deactivate_first:
  assumes "\<And>p. P (p\<lparr>isActive := False\<rparr>) = P p"
  shows "List.find P (deactivate_first P ps)
           = map_option (\<lambda>p. p\<lparr>isActive := False\<rparr>) (List.find P ps)"
  using assms by (induction ps) auto

lemma deactivate_first_idem:
  assumes "\<And>p. P (p\<lparr>isActive := False\<rparr>) = P p"
  shows "deactivate_first P (deactivate_first P ps) = deactivate_first P ps"
  using assms by (induction ps) auto

lemma length_deactivate_first: "length (deactivate_first P ps) = length ps"
  by (induction ps) auto

lemma deactivate_first_nth:
  "i < length ps \<Longrightarrow> \<not> P (ps ! i) \<Longrightarrow> deactivate_first P ps ! i = ps ! i"
  by (induction ps arbitrary: i) (auto simp: nth_Cons split: nat.splits)

lemma deactivate_first_append_fresh:
  "\<forall>q\<in>set ps. \<not> P q \<Longrightarrow> P x \<Longrightarrow> deactivate_first P (ps @ [x]) = ps @ [x\<lparr>isActive := False\<rparr>]"
  by (induction ps) auto

lemma find_append_fresh:
  "\<forall>q\<in>set ps. \<not> P q \<Longrightarrow> P x \<Longrightarrow> List.find P (ps @ [x]) = Some x"
  by (induction ps) auto

lemma revokeAccess_found:
  assumes "List.find (\<lambda>p. perm_id p = pid \<and> granterAddress p = g) (permissionList s) = Some q"
  shows "revokeAccess env s g pid =
     (Inr (), logSecurityEvent env
        (s\<lparr>permissionList :=
             deactivate_first (\<lambda>p. perm_id p = pid \<and> granterAddress p = g) (permissionList s)\<rparr>)
        ''Access Revoked'' g (Some (resourceId q)) True Medium
        (Some (''Revoked access from '' @ granteeAddress q)))"
  using assms by (simp add: revokeAccess_def Let_def)

lemma revokeAccess_not_found:
  assumes "List.find (\<lambda>p. perm_id p = pid \<and> granterAddress p = g) (permissionList s) = None"
  shows "revokeAccess env s g pid = (Inl NotFoundOrUnauthorized, s)"
  using assms by (simp add: revokeAccess_def Let_def)

lemma revokeAccess_Inr_found:
  assumes "revokeAccess env s g pid = (Inr u, s1)"
  shows "\<exists>q. List.find (\<lambda>p. perm_id p = pid \<and> granterAddress p = g) (permissionList s) = Some q"
  using assms
  by (cases "List.find (\<lambda>p. perm_id p = pid \<and> granterAddress p = g) (permissionList s)")
    (auto simp: revokeAccess_def Let_def)

lemma permissionList_revokeAccess:
  "permissionList (snd (revokeAccess env s g pid))
     = (case List.find (\<lambda>p. perm_id p = pid \<and> granterAddress p = g) (permissionList s) of
          None \<Rightarrow> permissionList s
        | Some q \<Rightarrow> deactivate_first (\<lambda>p. perm_id p = pid \<and> granterAddress p = g) (permissionList s))"
  by (simp add: revokeAccess_def Let_def permissionList_logSecurityEvent split: option.splits)

subsection \<open>The audit query\<close>

lemma sorted_sort_desc: "sorted_wrt (\<lambda>a b. timestamp b \<le> timestamp a) (sort_desc logs)"
proof -
  have "sorted (map (\<lambda>a. - timestamp a) (sort_desc logs))"
    unfolding sort_desc_def by (rule sorted_sort_key)
  then show ?thesis
    by (simp add: sorted_map)
qed

lemma set_sort_desc: "set (sort_desc logs) = set logs"
  by (simp add: sort_desc_def)

lemma length_sort_desc: "length (sort_desc logs) = length logs"
  by (simp add: sort_desc_def)

lemma filter_sort_desc: "filter P (sort_desc logs) = sort_desc (filter P logs)"
  by (simp add: sort_desc_def filter_sort)

lemma sorted_wrt_slice0: "sorted_wrt R xs \<Longrightarrow> sorted_wrt R (slice0 xs n)"
  by (simp add: slice0_def sorted_wrt_take)

lemma set_slice0: "set (slice0 xs n) \<subseteq> set xs"
  by (auto simp: slice0_def dest: in_set_takeD)

lemma getSecurityAuditLogs_eq:
  "getSecurityAuditLogs s u l = (Inr (slice0 (selected_logs s u) (limit_of l)), s)"
  by (simp add: getSecurityAuditLogs_def selected_logs_def limit_of_def Let_def
      split: option.splits)

lemma sorted_selected_logs:
  "sorted_wrt (\<lambda>a b. timestamp b \<le> timestamp a) (selected_logs s u)"
  by (simp add: selected_logs_def sorted_sort_desc sorted_wrt_filter split: option.splits)

lemma set_selected_logs:
  "set (selected_logs s u) \<subseteq> set (auditLogs s)"
  by (auto simp: selected_logs_def set_sort_desc split: option.splits if_splits)

lemma selected_logs_principal:
  "p \<noteq> [] \<Longrightarrow> e \<in> set (selected_logs s (Some p)) \<Longrightarrow>
     toLowerCase (userAddress e) = toLowerCase p"
  by (simp add: selected_logs_def)

subsection \<open>The score\<close>

lemma sum_event_penalty:
  "(\<Sum>e\<leftarrow>evs. event_penalty e)
     = int (length (filter (\<lambda>e. \<not> success e) evs)) * 2
       + int (length (filter (\<lambda>e. riskLevel e = High) evs)) * 5"
  by (induction evs) (auto simp: event_penalty_def)

lemma getSecurityAuditLogs_principal:
  "p \<noteq> [] \<Longrightarrow> getSecurityAuditLogs s (Some p) (Some 100) = (Inr (principal_events s p), s)"
  by (simp add: getSecurityAuditLogs_def principal_events_def same_principal_def slice0_def Let_def)

lemma getUserPermissions_eq:
  "getUserPermissions env s p = (Inr (effective_permissions (now env) s p), s)"
  by (simp add: getUserPermissions_def effective_permissions_def same_principal_def effective_def
      conj_assoc)

lemma calculateSecurityScore_eq:
  assumes "getSecurityAuditLogs s (Some p) (Some 100) = (Inr evs, s)"
  shows "calculateSecurityScore env s p =
     (Inr (clamp 0 100
            (100 - (\<Sum>e\<leftarrow>evs. event_penalty e)
                 - (if int (length (effective_permissions (now env) s p)) > 10
                    then 3 * (int (length (effective_permissions (now env) s p)) - 10) else 0)
                 + (if \<exists>e\<in>set evs. within_last_week (now env) e then 5 else 0))), s)"
proof -
  have r: "(length (filter (\<lambda>log. now env - timestamp log < 7 * 24 * 60 * 60 * 1000) evs) > 0)
      = (\<exists>e\<in>set evs. within_last_week (now env) e)"
    by (auto simp: within_last_week_def filter_empty_conv)
  have n: "(length (effective_permissions (now env) s p) > 10)
      = (int (length (effective_permissions (now env) s p)) > 10)"
    by simp
  show ?thesis
    unfolding calculateSecurityScore_def assms getUserPermissions_eq Let_def prod.case sum.case
      r n sum_event_penalty clamp_def
    by (cases "\<exists>e\<in>set evs. within_last_week (now env) e";
        cases "int (length (effective_permissions (now env) s p)) > 10") simp_all
qed

lemma clamp_bounds: "0 \<le> clamp 0 100 x \<and> clamp 0 100 x \<le> 100"
  by (simp add: clamp_def)

lemmas score_defs = calculateSecurityScore_def getSecurityAuditLogs_def getUserPermissions_def
  slice0_def sort_desc_def decryptData_def

lemma lower_X: "toLowerCase ''X'' = ''x''"
  by code_simp

subsection \<open>Scores of a long log\<close>

lemma auditLogs_logSecurityEvent:
  "auditLogs (logSecurityEvent env s a u r ok risk d)
     = auditLogs s @ [new_audit env a u r ok risk d]"
  by (simp add: logSecurityEvent_def)

lemma new_audit_simps:
  "timestamp (new_audit env a u r ok risk d) = now env"
  "userAddress (new_audit env a u r ok risk d) = u"
  "success (new_audit env a u r ok risk d) = ok"
  "riskLevel (new_audit env a u r ok risk d) = risk"
  by (simp_all add: new_audit_def)

lemma encryptData_repeated:
  assumes "\<not> stringify_has_wide d" and "deriveEncryptionKey k u = Inr key"
  shows "auditLogs (((\<lambda>s. snd (encryptData k m env s d u)) ^^ n) s0)
           = auditLogs s0 @ replicate n (new_audit env ''Data Encrypted'' u None True Low None) \<and>
         permissionList (((\<lambda>s. snd (encryptData k m env s d u)) ^^ n) s0) = permissionList s0"
proof (induction n)
  case 0
  show ?case by simp
next
  case (Suc n)
  then show ?case
    using assms
    by (simp add: encryptData_def Let_def auditLogs_logSecurityEvent
        permissionList_logSecurityEvent replicate_append_same)
qed

lemma insort_desc_older:
  "timestamp b < timestamp a \<Longrightarrow>
     insort_key (\<lambda>e. - timestamp e) b (replicate n a) = replicate n a @ [b]"
  by (induction n) auto

lemma sort_desc_replicate: "sort_desc (replicate n a) = replicate n a"
  unfolding sort_desc_def by (induction n) (auto simp: insort_is_Cons)

lemma sort_desc_older_first:
  "timestamp b < timestamp a \<Longrightarrow> sort_desc (b # replicate n a) = replicate n a @ [b]"
  using sort_desc_replicate[of n a] by (simp add: sort_desc_def insort_desc_older)

lemma sort_desc_newer_last:
  "timestamp a < timestamp c \<Longrightarrow> sort_desc (replicate n a @ [c]) = c # replicate n a"
  unfolding sort_desc_def by (induction n) (auto simp: insort_is_Cons)

lemma insort_desc_oldest:
  "timestamp b < timestamp a \<Longrightarrow> timestamp b < timestamp c \<Longrightarrow>
     insort_key (\<lambda>e. - timestamp e) b (c # replicate n a) = c # replicate n a @ [b]"
  by (simp add: insort_desc_older)

lemma sort_desc_three:
  "timestamp b < timestamp a \<Longrightarrow> timestamp a < timestamp c \<Longrightarrow>
     sort_desc (b # replicate n a @ [c]) = c # replicate n a @ [b]"
  using sort_desc_newer_last[of a c n] insort_desc_oldest[of b a c n]
  by (simp add: sort_desc_def)

lemma state_hundred_logs:
  "auditLogs state_hundred
     = new_audit (env_at 0 ''bad'') ''Decryption Failed'' ''X'' None False High
         (Some ''Unexpected token'')
       # replicate 99 (new_audit (env_at 1000 ''ok'') ''Data Encrypted'' ''X'' None True Low None)"
  "permissionList state_hundred = []"
  unfolding state_hundred_def
  by (simp_all add: encryptData_repeated[where key = "''0xXhealthchain_key''"]
      deriveEncryptionKey_def plain_hash_def high_surrogate_def low_surrogate_def decryptData_def
      auditLogs_logSecurityEvent permissionList_logSecurityEvent emptyService_def)

lemma state_hundred_one_logs:
  "auditLogs state_hundred_one
     = new_audit (env_at 0 ''bad'') ''Decryption Failed'' ''X'' None False High
         (Some ''Unexpected token'')
       # replicate 99 (new_audit (env_at 1000 ''ok'') ''Data Encrypted'' ''X'' None True Low None)
       @ [new_audit (env_at 2000 ''chk'') ''Access Check'' ''X'' (Some ''rec1'') False Medium
            (Some ''Checked read permission'')]"
  "permissionList state_hundred_one = []"
  unfolding state_hundred_one_def
  by (simp_all add: checkAccess_def Let_def auditLogs_logSecurityEvent
      permissionList_logSecurityEvent state_hundred_logs)

lemma score_state_hundred:
  "calculateSecurityScore (env_at 1000000000 ''z'') state_hundred ''X'' = (Inr 93, state_hundred)"
proof -
  have e: "principal_events state_hundred ''X''
      = replicate 99 (new_audit (env_at 1000 ''ok'') ''Data Encrypted'' ''X'' None True Low None)
        @ [new_audit (env_at 0 ''bad'') ''Decryption Failed'' ''X'' None False High
             (Some ''Unexpected token'')]"
    by (simp add: principal_events_def state_hundred_logs sort_desc_older_first new_audit_simps
        env_at_def same_principal_def)
  have p: "effective_permissions t state_hundred ''X'' = []" for t
    by (simp add: effective_permissions_def state_hundred_logs)
  have g: "getSecurityAuditLogs state_hundred (Some ''X'') (Some 100)
      = (Inr (principal_events state_hundred ''X''), state_hundred)"
    by (rule getSecurityAuditLogs_principal) simp
  show ?thesis
    unfolding calculateSecurityScore_eq[OF g] e p
    by (simp add: event_penalty_def new_audit_simps within_last_week_def env_at_def clamp_def
        sum_list_replicate)
qed

lemma score_state_hundred_one:
  "calculateSecurityScore (env_at 1000000000 ''z'') state_hundred_one ''X''
     = (Inr 98, state_hundred_one)"
proof -
  have e: "principal_events state_hundred_one ''X''
      = new_audit (env_at 2000 ''chk'') ''Access Check'' ''X'' (Some ''rec1'') False Medium
            (Some ''Checked read permission'')
        # replicate 99 (new_audit (env_at 1000 ''ok'') ''Data Encrypted'' ''X'' None True Low None)"
    by (simp add: principal_events_def state_hundred_one_logs sort_desc_three new_audit_simps
        env_at_def same_principal_def)
  have p: "effective_permissions t state_hundred_one ''X'' = []" for t
    by (simp add: effective_permissions_def state_hundred_one_logs)
  have g: "getSecurityAuditLogs state_hundred_one (Some ''X'') (Some 100)
      = (Inr (principal_events state_hundred_one ''X''), state_hundred_one)"
    by (rule getSecurityAuditLogs_principal) simp
  show ?thesis
    unfolding calculateSecurityScore_eq[OF g] e p
    by (simp add: event_penalty_def new_audit_simps within_last_week_def env_at_def clamp_def
        sum_list_replicate)
qed

lemma length_filter_sort_desc:
  "length (filter Q (sort_desc xs)) = length (filter Q xs)"
  by (simp add: filter_sort_desc length_sort_desc)

lemma selected_logs_append:
  "\<exists>G es. selected_logs s u = sort_desc G \<and>
          selected_logs (s\<lparr>auditLogs := auditLogs s @ [e]\<rparr>) u = sort_desc (G @ es) \<and>
          set es \<subseteq> {e} \<and> length es \<le> 1"
proof (cases "u = None \<or> u = Some []")
  case True
  then have "selected_logs s u = sort_desc (auditLogs s) \<and>
      selected_logs (s\<lparr>auditLogs := auditLogs s @ [e]\<rparr>) u = sort_desc (auditLogs s @ [e])"
    by (auto simp: selected_logs_def)
  then show ?thesis
    by (intro exI[of _ "auditLogs s"] exI[of _ "[e]"]) simp
next
  case False
  then obtain p where p: "u = Some p" "p \<noteq> []"
    by auto
  let ?M = "\<lambda>log. toLowerCase (userAddress log) = toLowerCase p"
  have "selected_logs s u = sort_desc (filter ?M (auditLogs s)) \<and>
      selected_logs (s\<lparr>auditLogs := auditLogs s @ [e]\<rparr>) u
        = sort_desc (filter ?M (auditLogs s) @ filter ?M [e])"
    using p by (simp add: selected_logs_def filter_sort_desc)
  then show ?thesis
    by (intro exI[of _ "filter ?M (auditLogs s)"] exI[of _ "filter ?M [e]"]) simp
qed

lemma getSecurityAuditLogs_hundred:
  "getSecurityAuditLogs s (Some p) (Some 100) = (Inr (take 100 (selected_logs s (Some p))), s)"
  by (simp add: getSecurityAuditLogs_eq limit_of_def slice0_def)

lemma clamp_mono: "x \<le> y \<Longrightarrow> clamp 0 100 x \<le> clamp 0 100 y"
  by (simp add: clamp_def)

lemma score_of_counts_eq:
  "score_of_counts f h n r
     = clamp 0 100 (100 - (int f * 2 + int h * 5)
                        - (if int n > 10 then 3 * (int n - 10) else 0)
                        + (if r then 5 else 0))"
  by (cases r; cases "10 < n") (simp_all add: score_of_counts_def clamp_def algebra_simps)

lemma score_of_counts_mono:
  "f \<le> f' \<Longrightarrow> h \<le> h' \<Longrightarrow> score_of_counts f' h' n r \<le> score_of_counts f h n r"
  unfolding score_of_counts_eq by (rule clamp_mono) simp

lemma calculateSecurityScore_counts:
  "calculateSecurityScore env s p =
     (Inr (score_of_counts
        (length (filter (\<lambda>e. \<not> success e) (take 100 (selected_logs s (Some p)))))
        (length (filter (\<lambda>e. riskLevel e = High) (take 100 (selected_logs s (Some p)))))
        (length (effective_permissions (now env) s p))
        (\<exists>e\<in>set (take 100 (selected_logs s (Some p))). within_last_week (now env) e)), s)"
  unfolding calculateSecurityScore_eq[OF getSecurityAuditLogs_hundred] score_of_counts_eq
    sum_event_penalty
  by simp

lemma score_after_append:
  assumes len: "length (selected_logs s (Some p)) < 100"
    and rec: "within_last_week (now env) e \<longrightarrow>
                (\<exists>x\<in>set (selected_logs s (Some p)). within_last_week (now env) x)"
  shows "\<exists>v v'. calculateSecurityScore env s p = (Inr v, s) \<and>
           calculateSecurityScore env (s\<lparr>auditLogs := auditLogs s @ [e]\<rparr>) p
             = (Inr v', s\<lparr>auditLogs := auditLogs s @ [e]\<rparr>) \<and>
           v' \<le> v"
proof -
  let ?s' = "s\<lparr>auditLogs := auditLogs s @ [e]\<rparr>"
  obtain G es where F: "selected_logs s (Some p) = sort_desc G"
    and F': "selected_logs ?s' (Some p) = sort_desc (G @ es)"
    and es: "set es \<subseteq> {e}" "length es \<le> 1"
    using selected_logs_append[of s "Some p" e] by blast
  have lG: "length G < 100"
    using len by (simp add: F length_sort_desc)
  have t: "take 100 (selected_logs s (Some p)) = sort_desc G"
    using lG by (simp add: F length_sort_desc)
  have t': "take 100 (selected_logs ?s' (Some p)) = sort_desc (G @ es)"
    using lG es by (simp add: F' length_sort_desc)
  have cnt: "length (filter Q (sort_desc G)) \<le> length (filter Q (sort_desc (G @ es)))" for Q
    by (simp add: length_filter_sort_desc)
  have recent: "(\<exists>x\<in>set (sort_desc (G @ es)). within_last_week (now env) x)
      = (\<exists>x\<in>set (sort_desc G). within_last_week (now env) x)"
    using es rec by (auto simp: set_sort_desc F)
  have perms: "effective_permissions (now env) ?s' p = effective_permissions (now env) s p"
    by (simp add: effective_permissions_def)
  have le: "score_of_counts
        (length (filter (\<lambda>e. \<not> success e) (sort_desc (G @ es))))
        (length (filter (\<lambda>e. riskLevel e = High) (sort_desc (G @ es))))
        (length (effective_permissions (now env) s p))
        (\<exists>x\<in>set (sort_desc G). within_last_week (now env) x)
      \<le> score_of_counts
        (length (filter (\<lambda>e. \<not> success e) (sort_desc G)))
        (length (filter (\<lambda>e. riskLevel e = High) (sort_desc G)))
        (length (effective_permissions (now env) s p))
        (\<exists>x\<in>set (sort_desc G). within_last_week (now env) x)"
    by (intro score_of_counts_mono cnt)
  show ?thesis
    unfolding calculateSecurityScore_counts t t' recent perms
    using le by simp
qed

subsection \<open>Encrypting and decrypting\<close>








section \<open>Granting, checking and revoking\<close>

text \<open>
  Claim C1, as amended. Let a grant by \<open>g\<close> to \<open>b\<close> on the resource \<open>r\<close> carry a set of
  permissions that contains \<open>p\<close>, and let its identifier be the identifier of no
  permission stored before. Then a check of \<open>(b, r, p)\<close> made before the permission
  expires (so immediately after a grant with a positive time to live) returns true, the
  revoke of that identifier by \<open>g\<close> succeeds, and a check made after it returns false,
  provided no other stored permission is effective for \<open>(b, r, p)\<close> at that time. The
  grantee may be written in any letter case (\<open>u\<close> for \<open>b\<close>) in the checks.
\<close>

theorem grant_check_revoke_check:
  assumes fresh: "\<forall>q\<in>set (permissionList s). perm_id q \<noteq> new_perm_id e1"
    and member: "p \<in> set ps"
    and same: "toLowerCase u = toLowerCase b"
    and soon: "now e2 < now e1 + h * 3600000"
    and other: "\<forall>q\<in>set (permissionList s). \<not> validPermission (now e4) u r p q"
  shows "\<exists>pid s1 s2 s3 s4.
      grantAccess e1 s g b r rt ps (Some h) = (Inr pid, s1) \<and>
      checkAccess e2 s1 u r p = (Inr True, s2) \<and>
      revokeAccess e3 s2 g pid = (Inr (), s3) \<and>
      checkAccess e4 s3 u r p = (Inr False, s4)"
proof -
  let ?np = "new_permission e1 g b r rt ps (Some h)"
  let ?P = "\<lambda>q. perm_id q = new_perm_id e1 \<and> granterAddress q = g"
  define s1 where "s1 = snd (grantAccess e1 s g b r rt ps (Some h))"
  define s2 where "s2 = snd (checkAccess e2 s1 u r p)"
  define s3 where "s3 = snd (revokeAccess e3 s2 g (new_perm_id e1))"
  have g1: "grantAccess e1 s g b r rt ps (Some h) = (Inr (new_perm_id e1), s1)"
    unfolding s1_def by (rule grantAccess_eq)
  have p1: "permissionList s1 = permissionList s @ [?np]"
    unfolding s1_def by (rule permissionList_grantAccess)
  have v: "validPermission (now e2) u r p ?np"
    using member soon same by (simp add: validPermission_def new_permission_simps)
  have c1: "checkAccess e2 s1 u r p = (Inr True, s2)"
    using checkAccess_eq[of e2 s1 u r p] v by (simp add: p1 s2_def)
  have p2: "permissionList s2 = permissionList s @ [?np]"
    unfolding s2_def by (simp add: permissionList_checkAccess p1)
  have nf: "\<forall>q\<in>set (permissionList s). \<not> ?P q"
    using fresh by simp
  have f: "List.find ?P (permissionList s2) = Some ?np"
    unfolding p2 by (rule find_append_fresh[OF nf]) (simp add: new_permission_simps)
  have d: "deactivate_first ?P (permissionList s2) = permissionList s @ [?np\<lparr>isActive := False\<rparr>]"
    unfolding p2 by (rule deactivate_first_append_fresh[OF nf]) (simp add: new_permission_simps)
  have r3: "revokeAccess e3 s2 g (new_perm_id e1) = (Inr (), s3)"
    unfolding s3_def using revokeAccess_found[OF f, of e3] by simp
  have p3: "permissionList s3 = permissionList s @ [?np\<lparr>isActive := False\<rparr>]"
    unfolding s3_def by (simp add: permissionList_revokeAccess f d)
  have nv: "\<not> (\<exists>q\<in>set (permissionList s3). validPermission (now e4) u r p q)"
    using other by (auto simp: p3 validPermission_def)
  have c2: "checkAccess e4 s3 u r p = (Inr False, snd (checkAccess e4 s3 u r p))"
    using checkAccess_eq[of e4 s3 u r p] nv by simp
  show ?thesis
    using g1 c1 r3 c2 by blast
qed

text \<open>
  The claim as stated, for every grant, fails when the identifier is not new. Two grants
  by A to B in the same millisecond, with the same random suffix, on \<open>rec1\<close> and on
  \<open>rec2\<close>, share their identifier. The revoke of it succeeds and deactivates the first of
  the two; the check of \<open>rec2\<close> still returns true, and no other permission grants
  \<open>read\<close> on \<open>rec2\<close> to B.
\<close>

theorem grant_check_revoke_check_counterexample:
  "fst (grantAccess (env_at 1000 ''abc'') state_after_grant ''A'' ''B'' ''rec2'' Record [Read] (Some 1))
     = Inr (new_perm_id (env_at 1000 ''abc'')) \<and>
   filter (validPermission 1000 ''B'' ''rec2'' Read) (permissionList state_after_grant) = [] \<and>
   fst (revokeAccess (env_at 1000 ''def'') state_two_grants_one_id ''A''
          (new_perm_id (env_at 1000 ''abc''))) = Inr () \<and>
   fst (checkAccess (env_at 1000 ''ghi'')
          (snd (revokeAccess (env_at 1000 ''def'') state_two_grants_one_id ''A''
                  (new_perm_id (env_at 1000 ''abc''))))
          ''B'' ''rec2'' Read) = Inr True"
  by (simp add: state_two_grants_one_id_def state_after_grant_def run_defs)

text \<open>The amended statement at a state that holds a permission already; the grantee is
  checked in another letter case.\<close>

theorem grant_check_revoke_check_witness:
  "\<exists>pid s1 s2 s3 s4.
      grantAccess (env_at 2000 ''def'') state_after_grant ''A'' ''B'' ''rec2'' Record [Read, Write]
        (Some 1) = (Inr pid, s1) \<and>
      checkAccess (env_at 2000 ''ghi'') s1 ''b'' ''rec2'' Read = (Inr True, s2) \<and>
      revokeAccess (env_at 3000 ''jkl'') s2 ''A'' pid = (Inr (), s3) \<and>
      checkAccess (env_at 3000 ''mno'') s3 ''b'' ''rec2'' Read = (Inr False, s4)"
proof -
  have fresh: "\<forall>q\<in>set (permissionList state_after_grant).
      perm_id q \<noteq> new_perm_id (env_at 2000 ''def'')"
    by (simp add: state_after_grant_def permissionList_grantAccess emptyService_def
        new_permission_simps new_perm_id_distinct)
  have member: "Read \<in> set [Read, Write]" by simp
  have soon: "now (env_at 2000 ''ghi'') < now (env_at 2000 ''def'') + 1 * 3600000"
    by (simp add: env_at_def)
  have other: "\<forall>q\<in>set (permissionList state_after_grant).
      \<not> validPermission (now (env_at 3000 ''mno'')) ''b'' ''rec2'' Read q"
    by (simp add: state_after_grant_def permissionList_grantAccess emptyService_def
        new_permission_simps validPermission_def)
  have same: "toLowerCase ''b'' = toLowerCase ''B''"
    by code_simp
  show ?thesis
    by (rule grant_check_revoke_check[OF fresh member same soon other])
qed

text \<open>
  Claim C2, as amended. After a grant with a time to live of \<open>h\<close> hours and no revoke,
  the permission is still stored as active, and a check of the grantee at or after
  \<open>createdAt + h\<close> hours (so at every time strictly after it) returns false, provided
  no other stored permission is effective for the same grantee, resource and permission
  at that time.
\<close>

theorem expired_grant_gives_no_access:
  assumes late: "now e1 + h * 3600000 \<le> now e2"
    and other: "\<forall>q\<in>set (permissionList s). \<not> validPermission (now e2) b r p q"
  shows "\<exists>pid s1 s2.
      grantAccess e1 s g b r rt ps (Some h) = (Inr pid, s1) \<and>
      createdAt (last (permissionList s1)) = now e1 \<and>
      isActive (last (permissionList s1)) \<and>
      checkAccess e2 s1 b r p = (Inr False, s2) \<and>
      permissionList s2 = permissionList s1"
proof -
  let ?np = "new_permission e1 g b r rt ps (Some h)"
  define s1 where "s1 = snd (grantAccess e1 s g b r rt ps (Some h))"
  have g1: "grantAccess e1 s g b r rt ps (Some h) = (Inr (new_perm_id e1), s1)"
    unfolding s1_def by (rule grantAccess_eq)
  have p1: "permissionList s1 = permissionList s @ [?np]"
    unfolding s1_def by (rule permissionList_grantAccess)
  have nv: "\<not> (\<exists>q\<in>set (permissionList s1). validPermission (now e2) b r p q)"
    using other late by (auto simp: p1 validPermission_def new_permission_simps)
  have c: "checkAccess e2 s1 b r p = (Inr False, snd (checkAccess e2 s1 b r p))"
    using checkAccess_eq[of e2 s1 b r p] nv by simp
  have l: "createdAt (last (permissionList s1)) = now e1" "isActive (last (permissionList s1))"
    by (simp_all add: p1 new_permission_simps)
  show ?thesis
    using g1 c l permissionList_checkAccess[of e2 s1 b r p] by blast
qed

text \<open>
  Without the proviso the claim fails: B holds a grant of 48 hours on \<open>rec1\<close> from time
  0; a second grant of one hour, created at 1000, has expired at 7201000, and the check
  returns true.
\<close>

theorem expired_grant_counterexample:
  "fst (grantAccess (env_at 1000 ''abc'') state_long_grant ''A'' ''B'' ''rec1'' Record [Read] (Some 1))
     = Inr (new_perm_id (env_at 1000 ''abc'')) \<and>
   createdAt (last (permissionList
     (snd (grantAccess (env_at 1000 ''abc'') state_long_grant ''A'' ''B'' ''rec1'' Record [Read]
             (Some 1))))) + 1 * 3600000 < 7201000 \<and>
   fst (checkAccess (env_at 7201000 ''def'')
          (snd (grantAccess (env_at 1000 ''abc'') state_long_grant ''A'' ''B'' ''rec1'' Record [Read]
                  (Some 1)))
          ''B'' ''rec1'' Read) = Inr True"
  by (simp add: state_long_grant_def run_defs)

text \<open>The amended statement at a state that holds a permission on another resource.\<close>

theorem expired_grant_gives_no_access_witness:
  "\<exists>pid s1 s2.
      grantAccess (env_at 2000 ''def'') state_after_grant ''A'' ''B'' ''rec2'' Record [Read] (Some 1)
        = (Inr pid, s1) \<and>
      createdAt (last (permissionList s1)) = now (env_at 2000 ''def'') \<and>
      isActive (last (permissionList s1)) \<and>
      checkAccess (env_at 3602001 ''ghi'') s1 ''B'' ''rec2'' Read = (Inr False, s2) \<and>
      permissionList s2 = permissionList s1"
proof -
  have late: "now (env_at 2000 ''def'') + 1 * 3600000 \<le> now (env_at 3602001 ''ghi'')"
    by (simp add: env_at_def)
  have other: "\<forall>q\<in>set (permissionList state_after_grant).
      \<not> validPermission (now (env_at 3602001 ''ghi'')) ''B'' ''rec2'' Read q"
    by (simp add: state_after_grant_def permissionList_grantAccess emptyService_def
        new_permission_simps validPermission_def)
  show ?thesis
    by (rule expired_grant_gives_no_access[OF late other])
qed

text \<open>
  Claim C5, as amended. The lookup of \<open>revokeAccess\<close> does not read \<open>isActive\<close>: after a
  successful revoke the permission is found again, inactive, and a second revoke of the
  same identifier by the same granter succeeds again. It leaves the permissions as they
  are, so the permission stays inactive, and appends one more audit event
  \<open>Access Revoked\<close>, successful and of medium risk.
\<close>

theorem second_revoke_succeeds:
  assumes "revokeAccess e1 s g pid = (Inr (), s1)"
  shows "\<exists>q s2.
           List.find (\<lambda>p. perm_id p = pid \<and> granterAddress p = g) (permissionList s1) = Some q \<and>
           \<not> isActive q \<and>
           revokeAccess e2 s1 g pid = (Inr (), s2) \<and>
           permissionList s2 = permissionList s1 \<and>
           auditLogs s2 = auditLogs s1 @
             [new_audit e2 ''Access Revoked'' g (Some (resourceId q)) True Medium
                (Some (''Revoked access from '' @ granteeAddress q))]"
proof -
  let ?P = "\<lambda>p. perm_id p = pid \<and> granterAddress p = g"
  obtain q where q: "List.find ?P (permissionList s) = Some q"
    using revokeAccess_Inr_found[OF assms] by blast
  have s1: "permissionList s1 = deactivate_first ?P (permissionList s)"
    using assms revokeAccess_found[OF q, of e1] by (auto simp: permissionList_logSecurityEvent)
  have inv: "\<And>p. ?P (p\<lparr>isActive := False\<rparr>) = ?P p" by simp
  have f1: "List.find ?P (permissionList s1) = Some (q\<lparr>isActive := False\<rparr>)"
    unfolding s1 using find_deactivate_first[of ?P, OF inv] q by simp
  have d1: "deactivate_first ?P (permissionList s1) = permissionList s1"
    unfolding s1 using deactivate_first_idem[of ?P, OF inv] by simp
  have r2: "revokeAccess e2 s1 g pid =
      (Inr (), logSecurityEvent e2 s1 ''Access Revoked'' g
                 (Some (resourceId (q\<lparr>isActive := False\<rparr>))) True Medium
                 (Some (''Revoked access from '' @ granteeAddress (q\<lparr>isActive := False\<rparr>))))"
    using revokeAccess_found[OF f1, of e2] d1 by simp
  let ?q = "q\<lparr>isActive := False\<rparr>"
  let ?s2 = "logSecurityEvent e2 s1 ''Access Revoked'' g (Some (resourceId ?q)) True Medium
               (Some (''Revoked access from '' @ granteeAddress ?q))"
  have "List.find ?P (permissionList s1) = Some ?q \<and>
        \<not> isActive ?q \<and>
        revokeAccess e2 s1 g pid = (Inr (), ?s2) \<and>
        permissionList ?s2 = permissionList s1 \<and>
        auditLogs ?s2 = auditLogs s1 @
          [new_audit e2 ''Access Revoked'' g (Some (resourceId ?q)) True Medium
             (Some (''Revoked access from '' @ granteeAddress ?q))]"
    using f1 r2 by (simp add: permissionList_logSecurityEvent auditLogs_logSecurityEvent)
  then show ?thesis
    by blast
qed

text \<open>The claim as stated says that the second revoke fails with
  \<open>NotFoundOrUnauthorized\<close>. After one grant and one revoke, it returns.\<close>

theorem second_revoke_counterexample:
  "fst (revokeAccess (env_at 2000 ''def'') state_after_grant ''A'' (new_perm_id (env_at 1000 ''abc'')))
     = Inr () \<and>
   fst (revokeAccess (env_at 3000 ''ghi'') state_after_revoke ''A'' (new_perm_id (env_at 1000 ''abc'')))
     = Inr () \<and>
   fst (revokeAccess (env_at 3000 ''ghi'') state_after_revoke ''A'' (new_perm_id (env_at 1000 ''abc'')))
     \<noteq> Inl NotFoundOrUnauthorized"
  by (simp add: state_after_revoke_def state_after_grant_def run_defs)

text \<open>The amended statement at those two revokes.\<close>

theorem second_revoke_succeeds_witness:
  "revokeAccess (env_at 2000 ''def'') state_after_grant ''A'' (new_perm_id (env_at 1000 ''abc''))
     = (Inr (), state_after_revoke) \<and>
   (\<exists>q s2.
      List.find (\<lambda>p. perm_id p = new_perm_id (env_at 1000 ''abc'') \<and> granterAddress p = ''A'')
        (permissionList state_after_revoke) = Some q \<and>
      \<not> isActive q \<and>
      revokeAccess (env_at 3000 ''ghi'') state_after_revoke ''A'' (new_perm_id (env_at 1000 ''abc''))
        = (Inr (), s2) \<and>
      permissionList s2 = permissionList state_after_revoke \<and>
      auditLogs s2 = auditLogs state_after_revoke @
        [new_audit (env_at 3000 ''ghi'') ''Access Revoked'' ''A'' (Some (resourceId q)) True Medium
           (Some (''Revoked access from '' @ granteeAddress q))])"
proof -
  have h: "revokeAccess (env_at 2000 ''def'') state_after_grant ''A'' (new_perm_id (env_at 1000 ''abc''))
     = (Inr (), state_after_revoke)"
    by (simp add: state_after_revoke_def state_after_grant_def run_defs)
  show ?thesis
    using h second_revoke_succeeds[OF h, of "env_at 3000 ''ghi''"] by (rule conjI)
qed

text \<open>
  Claim C6, as amended. When no stored permission with the given identifier has the
  caller as its granter (with identifiers that are unique: when the caller is not the
  original granter of the permission), \<open>revokeAccess\<close> fails with
  \<open>NotFoundOrUnauthorized\<close> and leaves the whole state as it was, so the permission stays
  active. In every case a revoke leaves each permission of another granter unchanged.
  Granters are compared by exact string equality.
\<close>

theorem revoke_by_other_principal:
  "((\<forall>q\<in>set (permissionList s). perm_id q = pid \<longrightarrow> granterAddress q \<noteq> caller) \<longrightarrow>
      revokeAccess env s caller pid = (Inl NotFoundOrUnauthorized, s)) \<and>
   length (permissionList (snd (revokeAccess env s caller pid))) = length (permissionList s) \<and>
   (\<forall>i<length (permissionList s).
      granterAddress (permissionList s ! i) \<noteq> caller \<longrightarrow>
      permissionList (snd (revokeAccess env s caller pid)) ! i = permissionList s ! i)"
proof (intro conjI impI allI)
  let ?P = "\<lambda>p. perm_id p = pid \<and> granterAddress p = caller"
  assume "\<forall>q\<in>set (permissionList s). perm_id q = pid \<longrightarrow> granterAddress q \<noteq> caller"
  then have "List.find ?P (permissionList s) = None"
    by (auto simp: find_None_iff)
  then show "revokeAccess env s caller pid = (Inl NotFoundOrUnauthorized, s)"
    by (rule revokeAccess_not_found)
next
  show "length (permissionList (snd (revokeAccess env s caller pid))) = length (permissionList s)"
    by (simp add: permissionList_revokeAccess length_deactivate_first split: option.splits)
next
  fix i
  assume "i < length (permissionList s)" "granterAddress (permissionList s ! i) \<noteq> caller"
  then show "permissionList (snd (revokeAccess env s caller pid)) ! i = permissionList s ! i"
    by (simp add: permissionList_revokeAccess deactivate_first_nth split: option.splits)
qed

text \<open>
  The claim as stated, for every permission and every caller that is not its granter,
  fails when two permissions share an identifier: the first was granted by A and is
  active, the second by C. The revoke of that identifier by C, who is not the granter of
  the first, succeeds.
\<close>

theorem revoke_by_other_principal_counterexample:
  "perm_id (permissionList state_shared_id ! 0) = new_perm_id (env_at 1000 ''abc'') \<and>
   granterAddress (permissionList state_shared_id ! 0) = ''A'' \<and>
   isActive (permissionList state_shared_id ! 0) \<and>
   fst (revokeAccess (env_at 2000 ''def'') state_shared_id ''C'' (new_perm_id (env_at 1000 ''abc'')))
     = Inr ()"
  by (simp add: state_shared_id_def state_after_grant_def run_defs)

text \<open>The amended statement where C revokes the permission that A granted.\<close>

theorem revoke_by_other_principal_witness:
  "revokeAccess (env_at 2000 ''def'') state_after_grant ''C'' (new_perm_id (env_at 1000 ''abc''))
     = (Inl NotFoundOrUnauthorized, state_after_grant) \<and>
   granterAddress (permissionList state_after_grant ! 0) = ''A'' \<and>
   isActive (permissionList state_after_grant ! 0)"
proof -
  have h: "\<forall>q\<in>set (permissionList state_after_grant).
      perm_id q = new_perm_id (env_at 1000 ''abc'') \<longrightarrow> granterAddress q \<noteq> ''C''"
    by (simp add: state_after_grant_def run_defs)
  have a: "granterAddress (permissionList state_after_grant ! 0) = ''A'' \<and>
      isActive (permissionList state_after_grant ! 0)"
    by (simp add: state_after_grant_def run_defs)
  from revoke_by_other_principal[of state_after_grant "new_perm_id (env_at 1000 ''abc'')" "''C''"
      "env_at 2000 ''def''"] h
  have c: "revokeAccess (env_at 2000 ''def'') state_after_grant ''C'' (new_perm_id (env_at 1000 ''abc''))
     = (Inl NotFoundOrUnauthorized, state_after_grant)"
    by blast
  show ?thesis using c a by blast
qed

text \<open>
  Claim C7, as amended. \<open>grantAccess\<close> validates nothing and never fails: for every
  input, an empty set of permissions or a time to live of zero or fewer hours included,
  it returns the new identifier, appends one active permission that expires \<open>h\<close> hours
  after the clock value, and records one audit event \<open>Access Granted\<close>. A permission with
  an empty set or with \<open>h \<le> 0\<close> passes no check at or after its creation.
\<close>

theorem grant_never_rejects:
  "fst (grantAccess env s g b r rt ps (Some h)) = Inr (new_perm_id env) \<and>
   permissionList (snd (grantAccess env s g b r rt ps (Some h)))
     = permissionList s @ [new_permission env g b r rt ps (Some h)] \<and>
   isActive (new_permission env g b r rt ps (Some h)) \<and>
   expiresAt (new_permission env g b r rt ps (Some h)) = now env + h * 3600000 \<and>
   length (auditLogs (snd (grantAccess env s g b r rt ps (Some h)))) = Suc (length (auditLogs s)) \<and>
   action (last (auditLogs (snd (grantAccess env s g b r rt ps (Some h))))) = ''Access Granted'' \<and>
   (ps = [] \<or> h \<le> 0 \<longrightarrow>
      (\<forall>t u r' p. now env \<le> t \<longrightarrow>
         \<not> validPermission t u r' p (new_permission env g b r rt ps (Some h))))"
proof -
  have "expiresAt (new_permission env g b r rt ps (Some h)) = now env + h * 3600000"
    by (simp add: new_permission_def)
  moreover have "h \<le> 0 \<Longrightarrow> now env + h * 3600000 \<le> now env"
    by simp
  moreover have "action (last (auditLogs (snd (grantAccess env s g b r rt ps (Some h)))))
      = ''Access Granted''"
    by (simp add: grantAccess_def Let_def logSecurityEvent_def new_audit_def)
  moreover have "permissions (new_permission env g b r rt ps (Some h)) = ps"
    "isActive (new_permission env g b r rt ps (Some h))"
    by (simp_all add: new_permission_def)
  ultimately show ?thesis
    by (auto simp: fst_grantAccess permissionList_grantAccess auditLogs_grantAccess
        validPermission_def)
qed

text \<open>The claim as stated says that a grant of no permissions for zero hours fails with
  \<open>InvalidArgument\<close> and stores nothing. It returns, and stores a permission and an audit
  event.\<close>

theorem grant_never_rejects_counterexample:
  "fst (grantAccess (env_at 1000 ''abc'') emptyService ''A'' ''B'' ''rec1'' Record [] (Some 0))
     \<noteq> Inl InvalidArgument \<and>
   length (permissionList
     (snd (grantAccess (env_at 1000 ''abc'') emptyService ''A'' ''B'' ''rec1'' Record [] (Some 0)))) = 1 \<and>
   length (auditLogs
     (snd (grantAccess (env_at 1000 ''abc'') emptyService ''A'' ''B'' ''rec1'' Record [] (Some 0)))) = 1"
  by (simp add: run_defs)

text \<open>The amended statement at that grant.\<close>

theorem grant_never_rejects_witness:
  "fst (grantAccess (env_at 1000 ''abc'') emptyService ''A'' ''B'' ''rec1'' Record [] (Some 0))
     = Inr (new_perm_id (env_at 1000 ''abc'')) \<and>
   \<not> validPermission 1000 ''B'' ''rec1'' Read
       (new_permission (env_at 1000 ''abc'') ''A'' ''B'' ''rec1'' Record [] (Some 0))"
proof -
  have n: "now (env_at 1000 ''abc'') \<le> 1000" by (simp add: env_at_def)
  from grant_never_rejects[of "env_at 1000 ''abc''" emptyService "''A''" "''B''" "''rec1''" Record
      "[]" 0] n
  show ?thesis by blast
qed

section \<open>The audit query\<close>

text \<open>
  Claim C8, as amended. \<open>getSecurityAuditLogs\<close> validates nothing and never fails,
  whatever the limit. It returns stored events only, sorted by timestamp, latest first,
  and leaves the state as it is. With a positive limit (50 when none is given) it
  returns at most that many events: the first ones of the selection. With the limit 0 it
  returns no event, and with a negative limit \<open>- k\<close> the selection without its last \<open>k\<close>
  events. When a principal is given and is not the empty string, the selection is made of
  all the stored events whose principal equals it up to letter case.
\<close>

theorem audit_query_never_rejects:
  "\<exists>evs. getSecurityAuditLogs s u l = (Inr evs, s) \<and>
     evs = slice0 (selected_logs s u) (limit_of l) \<and>
     set evs \<subseteq> set (auditLogs s) \<and>
     sorted_wrt (\<lambda>a b. timestamp b \<le> timestamp a) evs \<and>
     (0 < limit_of l \<longrightarrow>
        length evs \<le> nat (limit_of l) \<and> evs = take (nat (limit_of l)) (selected_logs s u)) \<and>
     (limit_of l = 0 \<longrightarrow> evs = []) \<and>
     (limit_of l < 0 \<longrightarrow>
        evs = take (length (selected_logs s u) - nat (- limit_of l)) (selected_logs s u)) \<and>
     (\<forall>p. u = Some p \<and> p \<noteq> [] \<longrightarrow>
        (\<forall>e\<in>set evs. toLowerCase (userAddress e) = toLowerCase p) \<and>
        (\<forall>e\<in>set (auditLogs s). toLowerCase (userAddress e) = toLowerCase p \<longrightarrow>
           e \<in> set (selected_logs s u)))"
proof -
  let ?evs = "slice0 (selected_logs s u) (limit_of l)"
  have 1: "getSecurityAuditLogs s u l = (Inr ?evs, s)"
    by (rule getSecurityAuditLogs_eq)
  have 2: "set ?evs \<subseteq> set (auditLogs s)"
    using set_slice0 set_selected_logs by fastforce
  have 3: "sorted_wrt (\<lambda>a b. timestamp b \<le> timestamp a) ?evs"
    by (rule sorted_wrt_slice0[OF sorted_selected_logs])
  have 4: "0 < limit_of l \<longrightarrow>
        length ?evs \<le> nat (limit_of l) \<and> ?evs = take (nat (limit_of l)) (selected_logs s u)"
    by (simp add: slice0_def)
  have 5: "limit_of l = 0 \<longrightarrow> ?evs = []"
    by (simp add: slice0_def)
  have 6: "limit_of l < 0 \<longrightarrow>
        ?evs = take (length (selected_logs s u) - nat (- limit_of l)) (selected_logs s u)"
  proof
    assume n: "limit_of l < 0"
    have "nat (int (length (selected_logs s u)) + limit_of l)
        = length (selected_logs s u) - nat (- limit_of l)"
      using n by linarith
    then show "?evs = take (length (selected_logs s u) - nat (- limit_of l)) (selected_logs s u)"
      using n by (simp add: slice0_def)
  qed
  have 7: "\<forall>p. u = Some p \<and> p \<noteq> [] \<longrightarrow>
        (\<forall>e\<in>set ?evs. toLowerCase (userAddress e) = toLowerCase p) \<and>
        (\<forall>e\<in>set (auditLogs s). toLowerCase (userAddress e) = toLowerCase p \<longrightarrow>
           e \<in> set (selected_logs s u))"
  proof (intro allI impI conjI ballI)
    fix p e
    assume u: "u = Some p \<and> p \<noteq> []" and e: "e \<in> set ?evs"
    from e have "e \<in> set (selected_logs s (Some p))"
      using set_slice0 u by fastforce
    then show "toLowerCase (userAddress e) = toLowerCase p"
      using selected_logs_principal u by blast
  next
    fix p e
    assume u: "u = Some p \<and> p \<noteq> []" and e: "e \<in> set (auditLogs s)"
      and m: "toLowerCase (userAddress e) = toLowerCase p"
    then show "e \<in> set (selected_logs s u)"
      by (simp add: selected_logs_def set_sort_desc)
  qed
  show ?thesis
    using 1 2 3 4 5 6 7 by blast
qed

text \<open>The claim as stated says that a limit that is not positive is rejected with
  \<open>InvalidArgument\<close>. On a log of two events, the limit 0 returns the empty list and the
  limit -1 returns the later event.\<close>

theorem audit_query_counterexample:
  "fst (getSecurityAuditLogs state_after_revoke None (Some 0)) = Inr [] \<and>
   fst (getSecurityAuditLogs state_after_revoke None (Some 0)) \<noteq> Inl InvalidArgument \<and>
   length (auditLogs state_after_revoke) = 2 \<and>
   fst (getSecurityAuditLogs state_after_revoke None (Some (- 1)))
     = Inr [last (auditLogs state_after_revoke)]"
  by (simp add: getSecurityAuditLogs_def slice0_def sort_desc_def state_after_revoke_def
      state_after_grant_def run_defs)

text \<open>The amended statement for the principal \<open>a\<close> and the limit 1, on the log of a grant
  and a revoke by \<open>A\<close>.\<close>

theorem audit_query_never_rejects_witness:
  "\<exists>evs. getSecurityAuditLogs state_after_revoke (Some ''a'') (Some 1)
            = (Inr evs, state_after_revoke) \<and>
         length evs \<le> 1 \<and>
         evs = take 1 (selected_logs state_after_revoke (Some ''a'')) \<and>
         list_all (\<lambda>e. toLowerCase (userAddress e) = toLowerCase ''a'') evs \<and>
         evs = [last (auditLogs state_after_revoke)]"
proof -
  have pos: "0 < limit_of (Some 1)" and lim: "nat (limit_of (Some 1)) = 1"
    by (simp_all add: limit_of_def)
  have low: "toLowerCase ''A'' = toLowerCase ''a''"
    by code_simp
  have sel: "take 1 (selected_logs state_after_revoke (Some ''a''))
      = [last (auditLogs state_after_revoke)]"
    by (simp add: selected_logs_def sort_desc_def state_after_revoke_def state_after_grant_def
        run_defs low)
  obtain evs where
    1: "getSecurityAuditLogs state_after_revoke (Some ''a'') (Some 1) = (Inr evs, state_after_revoke)"
    and 4: "0 < limit_of (Some 1) \<longrightarrow>
        length evs \<le> nat (limit_of (Some 1)) \<and>
        evs = take (nat (limit_of (Some 1))) (selected_logs state_after_revoke (Some ''a''))"
    and 7: "\<forall>p. Some ''a'' = Some p \<and> p \<noteq> [] \<longrightarrow>
        (\<forall>e\<in>set evs. toLowerCase (userAddress e) = toLowerCase p) \<and>
        (\<forall>e\<in>set (auditLogs state_after_revoke). toLowerCase (userAddress e) = toLowerCase p \<longrightarrow>
           e \<in> set (selected_logs state_after_revoke (Some ''a'')))"
    using audit_query_never_rejects[of state_after_revoke "Some ''a''" "Some 1"]
    by (elim exE conjE)
  from 4 pos have 5: "length evs \<le> 1"
    "evs = take 1 (selected_logs state_after_revoke (Some ''a''))"
    by (simp_all add: lim)
  from 7 have 8: "list_all (\<lambda>e. toLowerCase (userAddress e) = toLowerCase ''a'') evs"
    by (simp add: list_all_iff)
  from 5 sel have 9: "evs = [last (auditLogs state_after_revoke)]"
    by simp
  show ?thesis
    using 1 5 8 9 by (intro exI[of _ evs] conjI)
qed

section \<open>The security score\<close>

text \<open>
  Claim C3, as amended. In every state and for every principal the score is a number
  from 0 to 100. For every principal that is not the empty string it is the
  specification's score: the clamp to 0..100 of 100, minus 2 for each failed event and 5
  for each event of high risk among the up to 100 most recent events of the principal
  (both for a failed event of high risk), minus 3 for each effective permission of the
  principal above 10, plus 5 when one of the fetched events is less than seven days old.
  In particular four failed events, one of them of high risk and no other of high risk,
  none of them recent, and no effective permission give 87.
\<close>

theorem score_formula:
  "(\<exists>v. calculateSecurityScore env s p = (Inr v, s) \<and> 0 \<le> v \<and> v \<le> 100) \<and>
   (p \<noteq> [] \<longrightarrow> calculateSecurityScore env s p = (Inr (score_spec (now env) s p), s)) \<and>
   (p \<noteq> [] \<and>
    length (filter (\<lambda>e. \<not> success e) (principal_events s p)) = 4 \<and>
    length (filter (\<lambda>e. riskLevel e = High) (principal_events s p)) = 1 \<and>
    (\<forall>e\<in>set (principal_events s p). \<not> within_last_week (now env) e) \<and>
    effective_permissions (now env) s p = []
    \<longrightarrow> calculateSecurityScore env s p = (Inr 87, s))"
proof (intro conjI impI)
  obtain evs where e: "getSecurityAuditLogs s (Some p) (Some 100) = (Inr evs, s)"
    using getSecurityAuditLogs_Inr by blast
  show "\<exists>v. calculateSecurityScore env s p = (Inr v, s) \<and> 0 \<le> v \<and> v \<le> 100"
    using calculateSecurityScore_eq[where env = env, OF e] clamp_bounds by blast
next
  assume "p \<noteq> []"
  then show "calculateSecurityScore env s p = (Inr (score_spec (now env) s p), s)"
    using calculateSecurityScore_eq[where env = env, OF getSecurityAuditLogs_principal]
    by (simp add: score_spec_def Let_def)
next
  assume a: "p \<noteq> [] \<and>
    length (filter (\<lambda>e. \<not> success e) (principal_events s p)) = 4 \<and>
    length (filter (\<lambda>e. riskLevel e = High) (principal_events s p)) = 1 \<and>
    (\<forall>e\<in>set (principal_events s p). \<not> within_last_week (now env) e) \<and>
    effective_permissions (now env) s p = []"
  then show "calculateSecurityScore env s p = (Inr 87, s)"
    using calculateSecurityScore_eq[where env = env, OF getSecurityAuditLogs_principal]
    by (simp add: sum_event_penalty clamp_def)
qed

text \<open>
  For the empty string the source's test \<open>if (userAddress)\<close> skips the filter, and the
  score is computed from the events of all principals: with one failed event of
  principal X, more than a week old, the score of the empty principal is 98, where the
  events of that principal (there are none) give 100.
\<close>

theorem score_formula_counterexample:
  "fst (calculateSecurityScore (env_at 1000000000 ''z'') state_other_failure []) = Inr 98 \<and>
   score_spec 1000000000 state_other_failure [] = 100"
  by (simp add: state_other_failure_def score_defs run_defs score_spec_def principal_events_def
      same_principal_def effective_permissions_def clamp_def lower_X toLowerCase_def)

text \<open>The scenario of the claim, from three denied checks and one failed decryption.\<close>

theorem score_formula_witness:
  "calculateSecurityScore (env_at 1000000000 ''z'') state_four_failures ''X''
     = (Inr 87, state_four_failures) \<and>
   score_spec 1000000000 state_four_failures ''X'' = 87"
proof -
  have p: "principal_events state_four_failures ''X'' = rev (auditLogs state_four_failures)"
    by (simp add: state_four_failures_def score_defs run_defs principal_events_def
      same_principal_def)
  have h: "''X'' \<noteq> [] \<and>
    length (filter (\<lambda>e. \<not> success e) (principal_events state_four_failures ''X'')) = 4 \<and>
    length (filter (\<lambda>e. riskLevel e = High) (principal_events state_four_failures ''X'')) = 1 \<and>
    (\<forall>e\<in>set (principal_events state_four_failures ''X'').
        \<not> within_last_week (now (env_at 1000000000 ''z'')) e) \<and>
    effective_permissions (now (env_at 1000000000 ''z'')) state_four_failures ''X'' = []"
    unfolding p
    by (simp add: state_four_failures_def score_defs run_defs within_last_week_def
        effective_permissions_def)
  from score_formula[of "env_at 1000000000 ''z''" state_four_failures "''X''"] h
  have a: "calculateSecurityScore (env_at 1000000000 ''z'') state_four_failures ''X''
     = (Inr 87, state_four_failures)"
    and b: "calculateSecurityScore (env_at 1000000000 ''z'') state_four_failures ''X''
     = (Inr (score_spec (now (env_at 1000000000 ''z'')) state_four_failures ''X''),
        state_four_failures)"
    by blast+
  from a b have "score_spec (now (env_at 1000000000 ''z'')) state_four_failures ''X'' = 87"
    by simp
  then have c: "score_spec 1000000000 state_four_failures ''X'' = 87"
    by (simp add: env_at_def)
  show ?thesis
    using a c by (rule conjI)
qed

text \<open>
  Claim C9, as amended. The score is a function of the number of failed events and of
  the number of events of high risk among the fetched events (the up to 100 most recent
  ones that the query selects for the principal), of the number of effective
  permissions and of the recency bonus; with the other three fixed, it does not increase
  when the number of failed events or the number of events of high risk among the
  fetched events grows. Appending one event to the log does not raise the score when the
  query selects fewer than 100 events for the principal before, and the event does not
  switch the recency bonus on.
\<close>

theorem score_monotone:
  "(f \<le> f' \<and> h \<le> h' \<longrightarrow> score_of_counts f' h' n r \<le> score_of_counts f h n r) \<and>
   calculateSecurityScore env s p =
     (Inr (score_of_counts
        (length (filter (\<lambda>e. \<not> success e) (take 100 (selected_logs s (Some p)))))
        (length (filter (\<lambda>e. riskLevel e = High) (take 100 (selected_logs s (Some p)))))
        (length (effective_permissions (now env) s p))
        (\<exists>e\<in>set (take 100 (selected_logs s (Some p))). within_last_week (now env) e)), s) \<and>
   (length (selected_logs s (Some p)) < 100 \<and>
    (within_last_week (now env) e \<longrightarrow>
       (\<exists>x\<in>set (selected_logs s (Some p)). within_last_week (now env) x))
    \<longrightarrow> (\<exists>v v'. calculateSecurityScore env s p = (Inr v, s) \<and>
           calculateSecurityScore env (s\<lparr>auditLogs := auditLogs s @ [e]\<rparr>) p
             = (Inr v', s\<lparr>auditLogs := auditLogs s @ [e]\<rparr>) \<and>
           v' \<le> v))"
  using score_of_counts_mono[of f f' h h' n r] calculateSecurityScore_counts[of env s p]
    score_after_append[of s p env e]
  by (intro conjI impI) simp_all

text \<open>
  The claim as stated counts the events of the principal and says that one more failed
  event never raises the score. The score reads the 100 most recent events only.
  Principal X has 100 events: a failed decryption of high risk, the oldest, and 99
  successes; the score is 93. One more failed event, a denied check, pushes the oldest
  event out of the 100: the score is 98. No event is recent, there is no permission, and
  the number of events of high risk of X is the same before and after.
\<close>

theorem score_monotone_counterexample:
  "fst (calculateSecurityScore (env_at 1000000000 ''z'') state_hundred ''X'') = Inr 93 \<and>
   fst (calculateSecurityScore (env_at 1000000000 ''z'') state_hundred_one ''X'') = Inr 98 \<and>
   length (auditLogs state_hundred) = 100 \<and>
   butlast (auditLogs state_hundred_one) = auditLogs state_hundred \<and>
   userAddress (last (auditLogs state_hundred_one)) = ''X'' \<and>
   \<not> success (last (auditLogs state_hundred_one)) \<and>
   length (filter (\<lambda>e. riskLevel e = High) (auditLogs state_hundred_one))
     = length (filter (\<lambda>e. riskLevel e = High) (auditLogs state_hundred)) \<and>
   filter (within_last_week 1000000000) (auditLogs state_hundred_one) = [] \<and>
   permissionList state_hundred_one = permissionList state_hundred"
proof -
  have w: "filter (within_last_week 1000000000) (auditLogs state_hundred_one) = []"
    by (simp add: state_hundred_one_logs new_audit_simps within_last_week_def env_at_def)
  show ?thesis
    unfolding score_state_hundred score_state_hundred_one w
    by (simp add: state_hundred_logs state_hundred_one_logs new_audit_simps butlast_append)
qed

text \<open>The amended statement: four failures, one of high risk, against three failures;
  and a failed decryption appended to a log of one event.\<close>

theorem score_monotone_witness:
  "score_of_counts 4 1 0 False \<le> score_of_counts 3 0 0 False \<and>
   score_of_counts 4 1 0 False = 87 \<and> score_of_counts 3 0 0 False = 94 \<and>
   (\<exists>v v'. calculateSecurityScore (env_at 1000000000 ''z'') state_other_failure ''X''
              = (Inr v, state_other_failure) \<and>
            calculateSecurityScore (env_at 1000000000 ''z'')
              (state_other_failure\<lparr>auditLogs := auditLogs state_other_failure @
                 [new_audit (env_at 5000 ''d'') ''Decryption Failed'' ''X'' None False High None]\<rparr>)
              ''X''
              = (Inr v', state_other_failure\<lparr>auditLogs := auditLogs state_other_failure @
                 [new_audit (env_at 5000 ''d'') ''Decryption Failed'' ''X'' None False High None]\<rparr>)
              \<and> v' \<le> v)"
proof -
  let ?e = "new_audit (env_at 5000 ''d'') ''Decryption Failed'' ''X'' None False High None"
  have c: "(3::nat) \<le> 4 \<and> (0::nat) \<le> 1"
    by simp
  have l: "length (selected_logs state_other_failure (Some ''X'')) < 100"
    by (simp add: selected_logs_def state_other_failure_def sort_desc_def run_defs)
  have r: "within_last_week (now (env_at 1000000000 ''z'')) ?e \<longrightarrow>
       (\<exists>x\<in>set (selected_logs state_other_failure (Some ''X'')).
          within_last_week (now (env_at 1000000000 ''z'')) x)"
    by (simp add: within_last_week_def new_audit_simps env_at_def)
  note t = score_monotone[of 3 4 0 1 0 False "env_at 1000000000 ''z''" state_other_failure "''X''" ?e]
  have 1: "score_of_counts 4 1 0 False \<le> score_of_counts 3 0 0 False"
    by (rule mp[OF t[THEN conjunct1] c])
  have 2: "\<exists>v v'. calculateSecurityScore (env_at 1000000000 ''z'') state_other_failure ''X''
              = (Inr v, state_other_failure) \<and>
            calculateSecurityScore (env_at 1000000000 ''z'')
              (state_other_failure\<lparr>auditLogs := auditLogs state_other_failure @ [?e]\<rparr>) ''X''
              = (Inr v', state_other_failure\<lparr>auditLogs := auditLogs state_other_failure @ [?e]\<rparr>)
              \<and> v' \<le> v"
    by (rule mp[OF t[THEN conjunct2, THEN conjunct2] conjI[OF l r]])
  have 3: "score_of_counts 4 1 0 False = 87 \<and> score_of_counts 3 0 0 False = 94"
    by (simp add: score_of_counts_def)
  show ?thesis
    using 1 2 3 by blast
qed

section \<open>Placeholder encryption\<close>




section \<open>Read operations\<close>

text \<open>
  Claim C10. The audit query (\<open>getSecurityAuditLogs\<close>), the list of a principal's
  permissions (\<open>getUserPermissions\<close>) and the score (\<open>calculateSecurityScore\<close>) leave
  the audit log and the permissions as they were, in every state: the state after the
  call is the state before it. So a score computed after a score is the score that would
  have been computed without it. An access check, by contrast, appends one audit event.
\<close>

theorem read_operations_are_pure:
  "snd (getSecurityAuditLogs s u l) = s \<and>
   snd (getUserPermissions env s usr) = s \<and>
   snd (calculateSecurityScore env s usr) = s \<and>
   fst (calculateSecurityScore env' (snd (calculateSecurityScore env s usr)) usr)
     = fst (calculateSecurityScore env' s usr) \<and>
   length (auditLogs (snd (checkAccess env s usr res p))) = Suc (length (auditLogs s))"
  by (simp add: snd_getSecurityAuditLogs snd_getUserPermissions snd_calculateSecurityScore
      checkAccess_def Let_def length_auditLogs_logSecurityEvent)

end
